theory Spec2Isabelle
  imports Complex_Main "HOL-Library.Monad_Syntax"
begin

section \<open>LineClamp: the text-fit controller of src/LineClamp.js\<close>

text \<open>
  The class \<^verbatim>\<open>LineClamp\<close> measures the rendered height of a DOM element, decides whether
  its text occupies more than \<^verbatim>\<open>maxLines\<close> lines, and then either reduces the font size
  (\<^verbatim>\<open>softClamp\<close>) or cuts the text and appends an ellipsis (\<^verbatim>\<open>hardClamp\<close>).

  The browser is not part of the repository. Its layout engine is a parameter of the
  model (the record \<open>host\<close>), and the element is a record of the properties that the
  class reads and writes. Every method of the class takes the instance (\<^verbatim>\<open>this\<close>) and
  returns the updated instance.
\<close>

subsection \<open>JavaScript values\<close>

text \<open>
  Numbers. The only arithmetic of the class is one division by \<^verbatim>\<open>maxLines\<close>, one division
  by the comparison line height and the comparison \<^verbatim>\<open>a / b > c\<close>. A JavaScript
  division by zero does not fail: it yields an infinity or \<^verbatim>\<open>NaN\<close>, and every comparison
  with \<^verbatim>\<open>NaN\<close> is false. These cases are written out. Finite values are exact rationals:
  the rounding of IEEE doubles and the sign of zero are not modelled.
\<close>

datatype jsnum = Num rat | PosInfinity | NegInfinity | NaN

fun js_div :: "jsnum \<Rightarrow> jsnum \<Rightarrow> jsnum" where
  "js_div NaN _ = NaN"
| "js_div _ NaN = NaN"
| "js_div (Num a) (Num b) =
     (if b \<noteq> 0 then Num (a / b)
      else if 0 < a then PosInfinity
      else if a < 0 then NegInfinity
      else NaN)"
| "js_div (Num a) PosInfinity = Num 0"
| "js_div (Num a) NegInfinity = Num 0"
| "js_div PosInfinity (Num b) = (if 0 \<le> b then PosInfinity else NegInfinity)"
| "js_div NegInfinity (Num b) = (if 0 \<le> b then NegInfinity else PosInfinity)"
| "js_div PosInfinity _ = NaN"
| "js_div NegInfinity _ = NaN"

fun js_gt :: "jsnum \<Rightarrow> jsnum \<Rightarrow> bool" where
  "js_gt NaN _ = False"
| "js_gt _ NaN = False"
| "js_gt (Num a) (Num b) = (b < a)"
| "js_gt (Num a) PosInfinity = False"
| "js_gt (Num a) NegInfinity = True"
| "js_gt PosInfinity PosInfinity = False"
| "js_gt PosInfinity _ = True"
| "js_gt NegInfinity _ = False"

text \<open>
  Strings are lists of characters. \<^verbatim>\<open>Array.prototype.join\<close> puts the separator between
  the items; \<^verbatim>\<open>Array.prototype.toString\<close> is \<^verbatim>\<open>join(',')\<close>; \<^verbatim>\<open>String.prototype.repeat\<close>
  concatenates copies; \<^verbatim>\<open>s.slice(0, -1)\<close> drops the last character and leaves the empty
  string empty, which is \<^const>\<open>butlast\<close>; \<^verbatim>\<open>a.slice(0, i)\<close> with \<open>0 \<le> i \<le> length a\<close> is
  \<^const>\<open>take\<close>.
\<close>

fun join :: "string \<Rightarrow> string list \<Rightarrow> string" where
  "join sep [] = []"
| "join sep [x] = x"
| "join sep (x # y # ys) = x @ sep @ join sep (y # ys)"

definition toString :: "string list \<Rightarrow> string" where
  "toString xs = join '','' xs"

definition repeat :: "string \<Rightarrow> nat \<Rightarrow> string" where
  "repeat s n = concat (replicate n s)"

text \<open>
  \<^verbatim>\<open>text.split(/\s+/)\<close>: the text is cut at every maximal run of white space. The pieces
  before the first run and after the last one are kept even when they are empty, and a
  text without white space (the empty text too) is a single piece. Of the code points
  that \<^verbatim>\<open>\s\<close> matches, the model's 8-bit characters hold tab, line feed, vertical tab, form
  feed, carriage return and space.
\<close>

definition isWhiteSpace :: "char \<Rightarrow> bool" where
  "isWhiteSpace ch \<longleftrightarrow> ch \<in> set [CHR 0x09, CHR 0x0A, CHR 0x0B, CHR 0x0C, CHR 0x0D, CHR '' '']"

function split :: "string \<Rightarrow> string list" where
  "split [] = [[]]"
| "split (ch # s) =
     (if isWhiteSpace ch then [] # split (dropWhile isWhiteSpace s)
      else (case split s of [] \<Rightarrow> [[ch]] | w # ws \<Rightarrow> (ch # w) # ws))"
  by pat_completeness auto
termination
  by (relation "measure length") (auto simp: less_Suc_eq_le length_dropWhile_le)

subsection \<open>The rendering surface\<close>

text \<open>
  The children of the element are what was last assigned to it: a text
  (\<^verbatim>\<open>element.textContent = t\<close>) or markup (\<^verbatim>\<open>element.innerHTML = h\<close>). Reading \<^verbatim>\<open>innerHTML\<close>
  and assigning the value back, as \<^verbatim>\<open>textDimensions\<close> does, restores the children: the
  model saves and restores the \<open>content\<close>.

  The inline style is kept as the three things the class addresses: the style text
  \<^verbatim>\<open>style.cssText\<close>, which \<^verbatim>\<open>_whileMeasuring\<close> reads, extends and puts back; the property
  \<^verbatim>\<open>style.fontSize\<close>, which \<^verbatim>\<open>softClamp\<close> assigns (\<open>Unset\<close> is the empty string, \<open>Px i\<close> is
  the template string \<^verbatim>\<open>`${i}px`\<close>); and the inline \<^verbatim>\<open>min-height\<close>, which \<^verbatim>\<open>hardClamp\<close>
  removes (the empty string when absent). No write by name happens between the read and
  the restore of the style text, so the fields are independent.
\<close>

datatype content = Text string | Html string

datatype css_size = Unset | Px int

record element =
  content :: content
  cssText :: string
  fontSize :: css_size
  minHeight :: string

text \<open>
  What the browser provides: the rendered box height \<^verbatim>\<open>element.offsetHeight\<close> (an integer
  number of pixels) as a function of the element's content and inline style; the
  computed font size, as \<^verbatim>\<open>parseInt(getComputedStyle(element).fontSize, 10)\<close> reads it;
  and the text of markup, for \<^verbatim>\<open>element.textContent\<close> of an element whose children came
  from markup.
\<close>

record host =
  offsetHeight :: "element \<Rightarrow> int"
  computedFontSize :: "element \<Rightarrow> int"
  markupText :: "string \<Rightarrow> string"

definition textContent :: "host \<Rightarrow> element \<Rightarrow> string" where
  "textContent H el = (case content el of Text t \<Rightarrow> t | Html h \<Rightarrow> markupText H h)"

subsection \<open>The instance\<close>

text \<open>
  The fields of a \<^verbatim>\<open>LineClamp\<close> object. \<open>watching\<close> is \<^verbatim>\<open>this._watching\<close> (undefined, hence
  falsy, until the first \<^verbatim>\<open>watch\<close> or \<^verbatim>\<open>unwatch\<close>); \<open>observing\<close> says whether
  \<^verbatim>\<open>this.observer\<close> is connected to the element and \<open>resizeListener\<close> whether
  \<^verbatim>\<open>this.updateHandler\<close> is registered for the window's resize event. \<open>dispatched\<close> is the
  log of the events that \<^verbatim>\<open>triggerEvent\<close> has dispatched on the element, oldest first.
  \<^verbatim>\<open>maxLines\<close> is a count of lines and the two font sizes are whole pixels.
\<close>

datatype event = SoftClampEvent | HardClampEvent | ClampEvent

record lineclamp =
  originalWords :: "string list"
  maxLines :: nat
  useSoftClamp :: bool
  strict :: bool
  basisLineHeight :: jsnum
  minFontSize :: int
  maxFontSize :: int
  watching :: bool
  observing :: bool
  resizeListener :: bool
  element :: element
  dispatched :: "event list"

record textDimensions =
  lineHeight :: jsnum
  innerHeight :: int

definition triggerEvent :: "lineclamp \<Rightarrow> event \<Rightarrow> lineclamp" where
  "triggerEvent this type = this\<lparr>dispatched := dispatched this @ [type]\<rparr>"

subsection \<open>watch and unwatch\<close>

definition unwatch :: "lineclamp \<Rightarrow> lineclamp" where
  "unwatch this = this\<lparr>observing := False, resizeListener := False, watching := False\<rparr>"

text \<open>
  \<^verbatim>\<open>watch(false)\<close>, the only form in which \<^verbatim>\<open>clamp\<close> and \<^verbatim>\<open>_whileMeasuring\<close> call \<^verbatim>\<open>watch\<close>: the
  initial clamp is skipped and only the subscription remains. The method with its
  parameter is \<open>watch\<close>, after \<open>clamp\<close>.
\<close>

definition watchFalse :: "lineclamp \<Rightarrow> lineclamp" where
  "watchFalse this =
     (if \<not> watching this
      then this\<lparr>resizeListener := True, observing := True, watching := True\<rparr>
      else this)"

subsection \<open>Measuring\<close>

definition stylesToZeroOut :: "string list" where
  "stylesToZeroOut =
     [''min-height'', ''border-top-width'', ''border-bottom-width'',
      ''padding-top-width'', ''padding-bottom-width'']"

definition newStyles :: string where
  "newStyles = join '';'' (map (\<lambda>rule. rule @ '':0!important'') stylesToZeroOut)"

text \<open>
  \<^verbatim>\<open>_whileMeasuring(callback)\<close>. The source computes \<open>newStyles\<close> and then appends
  \<^verbatim>\<open>';' + stylesToZeroOut\<close>, the array itself, which JavaScript converts with
  \<^verbatim>\<open>Array.prototype.toString\<close>. The callback receives the element and may change it.
\<close>

definition whileMeasuring ::
    "(element \<Rightarrow> 'a \<times> element) \<Rightarrow> lineclamp \<Rightarrow> 'a \<times> lineclamp" where
  "whileMeasuring callback this =
     (let previouslyWatching = watching this;
          oldStyles = cssText (element this);
          this1 = unwatch this;
          this2 = this1\<lparr>element := (element this1)
                    \<lparr>cssText := cssText (element this1) @ '';'' @ toString stylesToZeroOut\<rparr>\<rparr>;
          (returnValue, el) = callback (element this2);
          this3 = this2\<lparr>element := el\<lparr>cssText := oldStyles\<rparr>\<rparr>
      in (returnValue, if previouslyWatching then watchFalse this3 else this3))"

definition getTextDimensions :: "host \<Rightarrow> lineclamp \<Rightarrow> textDimensions \<times> lineclamp" where
  "getTextDimensions H this =
     whileMeasuring
       (\<lambda>el.
          let originalHtml = content el;
              innerHeight = offsetHeight H el;
              el1 = el\<lparr>content := Html (''&nbsp;'' @ repeat ''<br>'' (maxLines this))\<rparr>;
              lineHeight = js_div (Num (of_int (offsetHeight H el1))) (Num (of_nat (maxLines this)));
              el2 = el1\<lparr>content := originalHtml\<rparr>
          in (\<lparr>lineHeight = lineHeight, innerHeight = innerHeight\<rparr>, el2))
       this"

definition currentLineHeight :: "host \<Rightarrow> lineclamp \<Rightarrow> jsnum \<times> lineclamp" where
  "currentLineHeight H this =
     (let (dims, this1) = getTextDimensions H this in (lineHeight dims, this1))"

definition shouldClamp :: "host \<Rightarrow> lineclamp \<Rightarrow> bool \<times> lineclamp" where
  "shouldClamp H this =
     (let (dims, this1) = getTextDimensions H this;
          comparisonLineHeight = (if strict this1 then lineHeight dims else basisLineHeight this1)
      in (js_gt (js_div (Num (of_int (innerHeight dims))) comparisonLineHeight)
                (Num (of_nat (maxLines this1))),
          this1))"

subsection \<open>Hard clamp\<close>

text \<open>
  The \<^verbatim>\<open>do ... while (this.shouldClamp())\<close> loop of \<^verbatim>\<open>hardClamp\<close>. Nothing in the source bounds
  the number of rounds, so the loop is a partial function: \<open>None\<close> stands for a loop that
  never ends.
\<close>

partial_function (option) trimLoop :: "host \<Rightarrow> string \<Rightarrow> lineclamp \<Rightarrow> lineclamp option" where
  "trimLoop H currentText this =
     (let currentText1 = butlast currentText;
          this1 = this\<lparr>element := (element this)\<lparr>content := Html (currentText1 @ ''&hellip;'')\<rparr>\<rparr>;
          (overflow, this2) = shouldClamp H this1
      in if overflow then trimLoop H currentText1 this2 else Some this2)"

declare trimLoop.simps [code]

text \<open>
  The \<^verbatim>\<open>for\<close> loop of \<^verbatim>\<open>hardClamp\<close> over \<open>i = 0, ..., len - 1\<close>, where \<open>len\<close> is read once
  from \<^verbatim>\<open>this.originalWords.length\<close>. The \<^verbatim>\<open>break\<close> after the inner loop leaves the \<^verbatim>\<open>for\<close>
  loop.
\<close>

function hardLoop :: "host \<Rightarrow> nat \<Rightarrow> nat \<Rightarrow> lineclamp \<Rightarrow> lineclamp option" where
  "hardLoop H i len this =
     (if i < len then
        (let currentText = join '' '' (take i (originalWords this));
             this1 = this\<lparr>element := (element this)\<lparr>content := Text currentText\<rparr>\<rparr>;
             (overflow, this2) = shouldClamp H this1
         in if overflow then trimLoop H currentText this2
            else hardLoop H (Suc i) len this2)
      else Some this)"
  by pat_completeness auto
termination
  by (relation "measure (\<lambda>(H, i, len, this). len - i)") auto

definition hardClamp :: "host \<Rightarrow> lineclamp \<Rightarrow> lineclamp option" where
  "hardClamp H this =
     (let (overflow, this1) = shouldClamp H this
      in do {
           this3 \<leftarrow> (if overflow then do {
                       this2 \<leftarrow> hardLoop H 0 (length (originalWords this1)) this1;
                       Some (triggerEvent (triggerEvent this2 HardClampEvent) ClampEvent)
                     }
                     else Some this1);
           Some (this3\<lparr>element := (element this3)\<lparr>minHeight := ''''\<rparr>\<rparr>)
         })"

subsection \<open>Soft clamp\<close>

text \<open>
  The \<^verbatim>\<open>for\<close> loop of \<^verbatim>\<open>softClamp\<close> over \<open>i = maxFontSize, maxFontSize - 1, ...\<close> while
  \<open>i \<ge> minFontSize\<close>. The result is the flag \<^verbatim>\<open>done\<close> and the instance.
\<close>

function softLoop :: "host \<Rightarrow> int \<Rightarrow> lineclamp \<Rightarrow> bool \<times> lineclamp" where
  "softLoop H i this =
     (if minFontSize this \<le> i then
        (let this1 = this\<lparr>element := (element this)\<lparr>fontSize := Px i\<rparr>\<rparr>;
             (overflow, this2) = shouldClamp H this1
         in if \<not> overflow then (True, this2)
            else softLoop H (i - 1) this2)
      else (False, this))"
  by pat_completeness auto
termination
  by (relation "measure (\<lambda>(H, i, this). nat (i + 1 - minFontSize this))")
     (auto simp: shouldClamp_def getTextDimensions_def whileMeasuring_def unwatch_def
        watchFalse_def Let_def split: prod.splits if_splits)

definition softClamp :: "host \<Rightarrow> lineclamp \<Rightarrow> lineclamp option" where
  "softClamp H this =
     (let this0 = this\<lparr>element := (element this)\<lparr>fontSize := Unset\<rparr>\<rparr>;
          (overflow, this1) = shouldClamp H this0
      in if overflow then
           (let (done, this2) = softLoop H (maxFontSize this1) this1;
                this3 = triggerEvent this2 SoftClampEvent
            in if \<not> done then hardClamp H this3
               else Some (triggerEvent this3 ClampEvent))
         else Some this1)"

subsection \<open>clamp, watch and the constructor\<close>

text \<open>
  \<^verbatim>\<open>if (this._element.offsetHeight)\<close> tests the number for truthiness: it is non-zero.
\<close>

definition clamp :: "host \<Rightarrow> lineclamp \<Rightarrow> lineclamp option" where
  "clamp H this =
     (if offsetHeight H (element this) \<noteq> 0 then
        (let previouslyWatching = watching this;
             this1 = unwatch this
         in do {
              this2 \<leftarrow> (if useSoftClamp this1 then softClamp H this1 else hardClamp H this1);
              Some (if previouslyWatching then watchFalse this2 else this2)
            })
      else Some this)"


text \<open>
  The options of the constructor; \<open>None\<close> is an option left undefined, which takes the
  default of the parameter list.
\<close>

record LineClampInit =
  init_maxLines :: "nat option"
  init_useSoftClamp :: "bool option"
  init_strict :: "bool option"
  init_basisLineHeight :: "jsnum option"
  init_minFontSize :: "int option"
  init_maxFontSize :: "int option"

definition orDefault :: "'a option \<Rightarrow> 'a \<Rightarrow> 'a" where
  "orDefault v d = (case v of None \<Rightarrow> d | Some x \<Rightarrow> x)"

text \<open>
  The constructor. When \<^verbatim>\<open>basisLineHeight\<close> is undefined it is measured with
  \<^verbatim>\<open>this.currentLineHeight\<close>, at a moment when only \<^verbatim>\<open>originalWords\<close>, \<^verbatim>\<open>_element\<close> and
  \<^verbatim>\<open>maxLines\<close> are assigned; the measurement reads no other field, so the record built
  first holds the other options already and a placeholder for the two fields that are
  resolved afterwards.
\<close>

definition constructor :: "host \<Rightarrow> element \<Rightarrow> LineClampInit \<Rightarrow> lineclamp" where
  "constructor H el options =
     (let this = \<lparr>originalWords = split (textContent H el),
                  maxLines = orDefault (init_maxLines options) 1,
                  useSoftClamp = orDefault (init_useSoftClamp options) True,
                  strict = orDefault (init_strict options) True,
                  basisLineHeight = NaN,
                  minFontSize = orDefault (init_minFontSize options) 1,
                  maxFontSize = 0,
                  watching = False, observing = False, resizeListener = False,
                  element = el,
                  dispatched = []\<rparr>;
          (basis, this1) = (case init_basisLineHeight options of
                              None \<Rightarrow> currentLineHeight H this
                            | Some b \<Rightarrow> (b, this));
          maxFont = (case init_maxFontSize options of
                       None \<Rightarrow> computedFontSize H (element this1)
                     | Some m \<Rightarrow> m)
      in this1\<lparr>basisLineHeight := basis, maxFontSize := maxFont\<rparr>)"

subsection \<open>Auxiliary notions for the statements\<close>

text \<open>
  A measurement suspends the subscriptions and resumes them when the instance was
  watching: afterwards both subscriptions agree with \<open>watching\<close>.
\<close>

definition resubscribed :: "lineclamp \<Rightarrow> lineclamp" where
  "resubscribed this = this\<lparr>observing := watching this, resizeListener := watching this\<rparr>"

text \<open>The instance after \<^verbatim>\<open>this._element.style.fontSize = v\<close>.\<close>

definition withFontSize :: "lineclamp \<Rightarrow> css_size \<Rightarrow> lineclamp" where
  "withFontSize this v = this\<lparr>element := (element this)\<lparr>fontSize := v\<rparr>\<rparr>"

text \<open>The instance after \<^verbatim>\<open>this._element.textContent = t\<close> or \<^verbatim>\<open>innerHTML = h\<close>.\<close>

definition withContent :: "lineclamp \<Rightarrow> content \<Rightarrow> lineclamp" where
  "withContent this v = this\<lparr>element := (element this)\<lparr>content := v\<rparr>\<rparr>"

text \<open>The outcome of the overflow test on an instance.\<close>

definition overflows :: "host \<Rightarrow> lineclamp \<Rightarrow> bool" where
  "overflows H this = fst (shouldClamp H this)"


text \<open>The instance after \<^verbatim>\<open>this._element.style.removeProperty('min-height')\<close>.\<close>

definition withoutMinHeight :: "lineclamp \<Rightarrow> lineclamp" where
  "withoutMinHeight this = this\<lparr>element := (element this)\<lparr>minHeight := ''''\<rparr>\<rparr>"

text \<open>The text that the \<^verbatim>\<open>for\<close> loop of \<^verbatim>\<open>hardClamp\<close> assigns in round \<open>i\<close>.\<close>

definition prefixText :: "lineclamp \<Rightarrow> nat \<Rightarrow> string" where
  "prefixText this i = join '' '' (take i (originalWords this))"

subsection \<open>A surface to run the class on\<close>

text \<open>
  A layout in the manner of the page that uses the class: a box 200 pixels wide, glyphs
  as wide as the font size and lines as high as the font size, 20 pixels when the inline
  style names no size. A text fills as many lines as its length needs, an empty text
  none; in markup the entity \<^verbatim>\<open>&hellip;\<close> is one glyph, and the fragment that
  \<^verbatim>\<open>textDimensions\<close> writes, \<^verbatim>\<open>&nbsp;\<close> followed by line breaks, has one line for each
  break.
\<close>

definition demoLines :: "nat \<Rightarrow> content \<Rightarrow> nat" where
  "demoLines perLine c =
     (case c of
        Text t \<Rightarrow> (length t + perLine - 1) div perLine
      | Html h \<Rightarrow> if take 6 h = ''&nbsp;'' then max 1 ((length h - 6) div 4)
                  else (length h - 7 + perLine - 1) div perLine)"

definition demoHost :: host where
  "demoHost =
     \<lparr>offsetHeight =
        (\<lambda>el. let size = (case fontSize el of Unset \<Rightarrow> 20 | Px i \<Rightarrow> i)
              in size * int (demoLines (nat (200 div size)) (content el))),
      computedFontSize = (\<lambda>el. 20),
      markupText = (\<lambda>h. h)\<rparr>"

definition heading :: element where
  "heading = \<lparr>content = Text ''Travis Van Couvering'', cssText = ''color:red'',
              fontSize = Unset, minHeight = ''''\<rparr>"

definition noOptions :: LineClampInit where
  "noOptions =
     \<lparr>init_maxLines = None, init_useSoftClamp = None, init_strict = None,
      init_basisLineHeight = None, init_minFontSize = None, init_maxFontSize = None\<rparr>"

text \<open>
  \<open>titleClamp\<close> is the instance that \<^verbatim>\<open>new LineClamp(heading)\<close> builds on this surface with
  the default options (lemma \<open>constructor_titleClamp\<close>). The others are variants of it:
  \<^item> \<open>hardOnlyClamp\<close>: \<^verbatim>\<open>useSoftClamp: false\<close>;
  \<^item> \<open>basisClamp\<close>: \<^verbatim>\<open>useSoftClamp: false, strict: false, basisLineHeight: 10\<close>, on a
    surface whose lines are 20 pixels high;
  \<^item> \<open>emptyRangeClamp\<close>: \<^verbatim>\<open>minFontSize: 21\<close>, above the maximum of 20;
  \<^item> \<open>sizedClamp\<close>: the heading \<^verbatim>\<open>Travis\<close> with the inline font size of 10 pixels that
    an earlier soft clamp left, and \<^verbatim>\<open>maxFontSize: 10\<close>;
  \<^item> \<open>narrowRangeClamp\<close>: the heading \<^verbatim>\<open>Travis VanCouvering Jr\<close> with
    \<^verbatim>\<open>minFontSize: 15\<close>, after \<^verbatim>\<open>watch()\<close>;
  \<^item> \<open>paddedHeading\<close>: an element whose text starts and ends with a space.
\<close>

definition titleClamp :: lineclamp where
  "titleClamp =
     \<lparr>originalWords = [''Travis'', ''Van'', ''Couvering''], maxLines = 1,
      useSoftClamp = True, strict = True, basisLineHeight = Num 20,
      minFontSize = 1, maxFontSize = 20,
      watching = False, observing = False, resizeListener = False,
      element = heading, dispatched = []\<rparr>"

definition hardOnlyClamp :: lineclamp where
  "hardOnlyClamp = titleClamp\<lparr>useSoftClamp := False\<rparr>"

definition basisClamp :: lineclamp where
  "basisClamp = titleClamp\<lparr>useSoftClamp := False, strict := False, basisLineHeight := Num 10\<rparr>"

definition emptyRangeClamp :: lineclamp where
  "emptyRangeClamp = titleClamp\<lparr>minFontSize := 21\<rparr>"


definition narrowRangeClamp :: lineclamp where
  "narrowRangeClamp =
     titleClamp\<lparr>originalWords := [''Travis'', ''VanCouvering'', ''Jr''], minFontSize := 15,
       watching := True, observing := True, resizeListener := True,
       element := heading\<lparr>content := Text ''Travis VanCouvering Jr''\<rparr>\<rparr>"


section \<open>Properties\<close>

text \<open>
  Each loop is unfolded one round at a time, with the lemmas \<open>softLoop_step\<close>,
  \<open>trimLoop_step\<close> and \<open>hardLoop_step\<close>.
\<close>

declare softLoop.simps [simp del] hardLoop.simps [simp del]

subsection \<open>Measuring leaves the element as it was\<close>

lemma getTextDimensions_eq:
  "getTextDimensions H this =
     (let surface = (element this)\<lparr>cssText := cssText (element this) @ '';'' @ toString stylesToZeroOut\<rparr>
      in (\<lparr>lineHeight = js_div (Num (of_int (offsetHeight H
                (surface\<lparr>content := Html (''&nbsp;'' @ repeat ''<br>'' (maxLines this))\<rparr>))))
              (Num (of_nat (maxLines this))),
           innerHeight = offsetHeight H surface\<rparr>,
          resubscribed this))"
  by (simp add: getTextDimensions_def whileMeasuring_def unwatch_def watchFalse_def
      resubscribed_def Let_def)

lemma shouldClamp_eq:
  "shouldClamp H this =
     (let surface = (element this)\<lparr>cssText := cssText (element this) @ '';'' @ toString stylesToZeroOut\<rparr>;
          innerHeight = offsetHeight H surface;
          lineHeight = js_div (Num (of_int (offsetHeight H
                (surface\<lparr>content := Html (''&nbsp;'' @ repeat ''<br>'' (maxLines this))\<rparr>))))
              (Num (of_nat (maxLines this)));
          comparisonLineHeight = (if strict this then lineHeight else basisLineHeight this)
      in (js_gt (js_div (Num (of_int innerHeight)) comparisonLineHeight) (Num (of_nat (maxLines this))),
          resubscribed this))"
  by (simp add: shouldClamp_def getTextDimensions_eq Let_def resubscribed_def)

lemma shouldClamp_pair: "shouldClamp H this = (overflows H this, resubscribed this)"
  by (simp add: overflows_def prod_eq_iff shouldClamp_eq Let_def)

lemma overflows_cong:
  "element a = element b \<Longrightarrow> maxLines a = maxLines b \<Longrightarrow> strict a = strict b \<Longrightarrow>
   basisLineHeight a = basisLineHeight b \<Longrightarrow> overflows H a = overflows H b"
  by (simp add: overflows_def shouldClamp_eq Let_def)

lemma overflows_resubscribed [simp]: "overflows H (resubscribed this) = overflows H this"
  by (rule overflows_cong) (simp_all add: resubscribed_def)

lemma overflows_unwatch [simp]: "overflows H (unwatch this) = overflows H this"
  by (rule overflows_cong) (simp_all add: unwatch_def)

lemma overflows_watchFalse [simp]: "overflows H (watchFalse this) = overflows H this"
  by (rule overflows_cong) (simp_all add: watchFalse_def)

lemma overflows_triggerEvent [simp]: "overflows H (triggerEvent this ev) = overflows H this"
  by (rule overflows_cong) (simp_all add: triggerEvent_def)

lemma overflows_withFontSize_resubscribed [simp]:
  "overflows H (withFontSize (resubscribed this) v) = overflows H (withFontSize this v)"
  by (rule overflows_cong) (simp_all add: resubscribed_def withFontSize_def)

lemma overflows_withContent_resubscribed [simp]:
  "overflows H (withContent (resubscribed this) v) = overflows H (withContent this v)"
  by (rule overflows_cong) (simp_all add: resubscribed_def withContent_def)

lemma resubscribed_idem [simp]: "resubscribed (resubscribed this) = resubscribed this"
  by (simp add: resubscribed_def)

lemma resubscribed_unwatch [simp]: "resubscribed (unwatch this) = unwatch this"
  by (simp add: resubscribed_def unwatch_def)

lemma withFontSize_twice [simp]:
  "withFontSize (withFontSize this v) w = withFontSize this w"
  by (simp add: withFontSize_def)

lemma withFontSize_resubscribed:
  "withFontSize (resubscribed this) v = resubscribed (withFontSize this v)"
  by (simp add: withFontSize_def resubscribed_def)

lemma withContent_twice [simp]:
  "withContent (withContent this v) w = withContent this w"
  by (simp add: withContent_def)

lemma withContent_resubscribed:
  "withContent (resubscribed this) v = resubscribed (withContent this v)"
  by (simp add: withContent_def resubscribed_def)

lemma softLoop_step:
  "softLoop H i this =
     (if minFontSize this \<le> i then
        (if \<not> overflows H (withFontSize this (Px i)) then (True, resubscribed (withFontSize this (Px i)))
         else softLoop H (i - 1) (resubscribed (withFontSize this (Px i))))
      else (False, this))"
  by (subst softLoop.simps) (simp add: shouldClamp_pair withFontSize_def Let_def)

lemma minFontSize_step [simp]: "minFontSize (resubscribed (withFontSize this v)) = minFontSize this"
  by (simp add: resubscribed_def withFontSize_def)



text \<open>Either the loop ran no round or it stopped after assigning some size of the range.\<close>

lemma softLoop_shape:
  "softLoop H k this = (done, this') \<Longrightarrow>
   (\<not> done \<and> this' = this \<and> k < minFontSize this) \<or>
   (\<exists>j. minFontSize this \<le> j \<and> j \<le> k \<and> this' = resubscribed (withFontSize this (Px j))
        \<and> overflows H this' = (\<not> done))"
proof (induction "nat (k + 1 - minFontSize this)" arbitrary: k this)
  case 0
  then have "\<not> minFontSize this \<le> k" by simp
  with "0.prems" show ?case by (subst (asm) softLoop_step) simp
next
  case (Suc n)
  then have le: "minFontSize this \<le> k" by simp
  let ?next = "resubscribed (withFontSize this (Px k))"
  show ?case
  proof (cases "overflows H (withFontSize this (Px k))")
    case False
    with Suc.prems le have "done" "this' = ?next"
      by (subst (asm) softLoop_step, simp)+
    with False le show ?thesis by auto
  next
    case True
    with Suc.prems le have rec: "softLoop H (k - 1) ?next = (done, this')"
      by (subst (asm) softLoop_step) simp
    have n: "n = nat ((k - 1) + 1 - minFontSize ?next)" using Suc.hyps(2) by simp
    from Suc.hyps(1) [OF n rec]
    show ?thesis
    proof
      assume "\<not> done \<and> this' = ?next \<and> k - 1 < minFontSize ?next"
      with le True show ?thesis by auto
    next
      assume "\<exists>j. minFontSize ?next \<le> j \<and> j \<le> k - 1
                \<and> this' = resubscribed (withFontSize ?next (Px j))
                \<and> overflows H this' = (\<not> done)"
      then obtain j where j: "minFontSize ?next \<le> j" "j \<le> k - 1"
        "this' = resubscribed (withFontSize ?next (Px j))" "overflows H this' = (\<not> done)"
        by blast
      from j(3) have "this' = resubscribed (withFontSize this (Px j))"
        by (simp add: withFontSize_resubscribed)
      with j(1,2,4) show ?thesis by (intro disjI2 exI [of _ j]) simp
    qed
  qed
qed

subsection \<open>Hard clamp, round by round\<close>

lemma trimLoop_step:
  "trimLoop H t this =
     (if overflows H (withContent this (Html (butlast t @ ''&hellip;'')))
      then trimLoop H (butlast t) (resubscribed (withContent this (Html (butlast t @ ''&hellip;''))))
      else Some (resubscribed (withContent this (Html (butlast t @ ''&hellip;'')))))"
  by (subst trimLoop.simps) (simp add: shouldClamp_pair withContent_def Let_def)

lemma trimLoop_shape:
  assumes "trimLoop H t this = Some y"
  shows "\<exists>t'. y = resubscribed (withContent this (Html (t' @ ''&hellip;''))) \<and> \<not> overflows H y"
proof (rule trimLoop.raw_induct
    [where P = "\<lambda>H t this y. \<exists>t'. y = resubscribed (withContent this (Html (t' @ ''&hellip;'')))
                                \<and> \<not> overflows H y", OF _ assms])
  fix loop :: "host \<Rightarrow> string \<Rightarrow> lineclamp \<Rightarrow> lineclamp option"
  fix H :: host and t :: string and this y :: lineclamp
  assume IH: "\<And>H t this y. loop H t this = Some y \<Longrightarrow>
     \<exists>t'. y = resubscribed (withContent this (Html (t' @ ''&hellip;''))) \<and> \<not> overflows H y"
  assume body: "(let currentText1 = butlast t;
          this1 = this\<lparr>element := (element this)\<lparr>content := Html (currentText1 @ ''&hellip;'')\<rparr>\<rparr>;
          (overflow, this2) = shouldClamp H this1
      in if overflow then loop H currentText1 this2 else Some this2) = Some y"
  let ?next = "resubscribed (withContent this (Html (butlast t @ ''&hellip;'')))"
  show "\<exists>t'. y = resubscribed (withContent this (Html (t' @ ''&hellip;''))) \<and> \<not> overflows H y"
  proof (cases "overflows H (withContent this (Html (butlast t @ ''&hellip;'')))")
    case True
    with body have "loop H (butlast t) ?next = Some y"
      by (simp add: shouldClamp_pair withContent_def Let_def)
    from IH [OF this] obtain t' where
      "y = resubscribed (withContent ?next (Html (t' @ ''&hellip;'')))" "\<not> overflows H y"
      by blast
    then show ?thesis by (auto simp: withContent_resubscribed)
  next
    case False
    with body have "y = ?next"
      by (simp add: shouldClamp_pair withContent_def Let_def)
    with False show ?thesis by auto
  qed
qed

lemma trimLoop_exhausted_aux:
  assumes "trimLoop H t this = Some y"
  shows "t = [] \<longrightarrow> \<not> overflows H (withContent this (Html ''&hellip;''))"
proof (rule trimLoop.raw_induct
    [where P = "\<lambda>H t this y. t = [] \<longrightarrow> \<not> overflows H (withContent this (Html ''&hellip;''))",
     OF _ assms])
  fix loop :: "host \<Rightarrow> string \<Rightarrow> lineclamp \<Rightarrow> lineclamp option"
  fix H :: host and t :: string and this y :: lineclamp
  assume IH: "\<And>H t this y. loop H t this = Some y \<Longrightarrow>
     t = [] \<longrightarrow> \<not> overflows H (withContent this (Html ''&hellip;''))"
  assume body: "(let currentText1 = butlast t;
          this1 = this\<lparr>element := (element this)\<lparr>content := Html (currentText1 @ ''&hellip;'')\<rparr>\<rparr>;
          (overflow, this2) = shouldClamp H this1
      in if overflow then loop H currentText1 this2 else Some this2) = Some y"
  show "t = [] \<longrightarrow> \<not> overflows H (withContent this (Html ''&hellip;''))"
  proof
    assume t: "t = []"
    show "\<not> overflows H (withContent this (Html ''&hellip;''))"
    proof
      assume ov: "overflows H (withContent this (Html ''&hellip;''))"
      let ?next = "resubscribed (withContent this (Html ''&hellip;''))"
      from body t ov have "loop H [] ?next = Some y"
        by (simp add: shouldClamp_pair withContent_def Let_def)
      from IH [OF this] have "\<not> overflows H (withContent ?next (Html ''&hellip;''))"
        by simp
      with ov show False by simp
    qed
  qed
qed

lemma trimLoop_exhausted:
  "overflows H (withContent this (Html ''&hellip;'')) \<Longrightarrow> trimLoop H [] this = None"
  using trimLoop_exhausted_aux [of H "[]" this] by (cases "trimLoop H [] this") auto

lemma hardLoop_step:
  "hardLoop H i len this =
     (if i < len then
        (if overflows H (withContent this (Text (prefixText this i)))
         then trimLoop H (prefixText this i) (resubscribed (withContent this (Text (prefixText this i))))
         else hardLoop H (Suc i) len (resubscribed (withContent this (Text (prefixText this i)))))
      else Some this)"
  by (subst hardLoop.simps) (simp add: shouldClamp_pair withContent_def prefixText_def Let_def)

lemma prefixText_step [simp]:
  "prefixText (resubscribed (withContent this v)) i = prefixText this i"
  by (simp add: prefixText_def resubscribed_def withContent_def)

lemma hardLoop_shape:
  "hardLoop H i len this = Some y \<Longrightarrow>
   (len \<le> i \<and> y = this) \<or> (\<exists>c. y = resubscribed (withContent this c) \<and> \<not> overflows H y)"
proof (induction "len - i" arbitrary: i this)
  case 0
  then show ?case by (subst (asm) hardLoop_step) simp
next
  case (Suc n)
  then have lt: "i < len" and n: "n = len - Suc i" by simp_all
  let ?c = "Text (prefixText this i)"
  let ?next = "resubscribed (withContent this ?c)"
  show ?case
  proof (cases "overflows H (withContent this ?c)")
    case True
    with Suc.prems lt have "trimLoop H (prefixText this i) ?next = Some y"
      by (subst (asm) hardLoop_step) simp
    from trimLoop_shape [OF this] show ?thesis
      by (auto simp: withContent_resubscribed)
  next
    case False
    with Suc.prems lt have rec: "hardLoop H (Suc i) len ?next = Some y"
      by (subst (asm) hardLoop_step) simp
    from Suc.hyps(1) [OF n rec] show ?thesis
    proof
      assume "len \<le> Suc i \<and> y = ?next"
      with False show ?thesis by auto
    next
      assume "\<exists>c. y = resubscribed (withContent ?next c) \<and> \<not> overflows H y"
      then show ?thesis by (auto simp: withContent_resubscribed)
    qed
  qed
qed

lemma hardLoop_all_fit:
  "i < len \<Longrightarrow>
   (\<forall>j. i \<le> j \<and> j < len \<longrightarrow> \<not> overflows H (withContent this (Text (prefixText this j)))) \<Longrightarrow>
   hardLoop H i len this = Some (resubscribed (withContent this (Text (prefixText this (len - 1)))))"
proof (induction "len - i" arbitrary: i this)
  case 0
  then show ?case by simp
next
  case (Suc n)
  then have n: "n = len - Suc i" by simp
  let ?next = "resubscribed (withContent this (Text (prefixText this i)))"
  have fit: "\<not> overflows H (withContent this (Text (prefixText this i)))"
    using Suc.prems by simp
  show ?case
  proof (cases "Suc i < len")
    case True
    have "hardLoop H (Suc i) len ?next
          = Some (resubscribed (withContent ?next (Text (prefixText ?next (len - 1)))))"
      using Suc.prems True by (intro Suc.hyps(1) [OF n]) simp_all
    with fit Suc.prems show ?thesis
      by (subst hardLoop_step) (simp add: withContent_resubscribed)
  next
    case False
    with Suc.prems have i: "i = len - 1" by simp
    have "hardLoop H (Suc i) len ?next = Some ?next"
      using False by (subst hardLoop_step) simp
    with fit Suc.prems(1) show ?thesis
      unfolding i [symmetric] by (subst hardLoop_step) simp
  qed
qed

subsection \<open>The shape of the results\<close>

lemmas instance_defs =
  resubscribed_def withContent_def withFontSize_def withoutMinHeight_def triggerEvent_def
  unwatch_def watchFalse_def

lemma hardClamp_step:
  "hardClamp H this =
     (if overflows H this
      then (case hardLoop H 0 (length (originalWords this)) (resubscribed this) of
              None \<Rightarrow> None
            | Some this2 \<Rightarrow>
                Some (withoutMinHeight (triggerEvent (triggerEvent this2 HardClampEvent) ClampEvent)))
      else Some (withoutMinHeight (resubscribed this)))"
  by (simp add: hardClamp_def shouldClamp_pair withoutMinHeight_def resubscribed_def
      split: option.splits)


lemma hardClamp_shape:
  assumes "hardClamp H this = Some y"
  shows "(\<not> overflows H this \<and> y = withoutMinHeight (resubscribed this)) \<or>
         (overflows H this \<and>
          (\<exists>z. y = withoutMinHeight (triggerEvent (triggerEvent z HardClampEvent) ClampEvent) \<and>
               ((originalWords this = [] \<and> z = resubscribed this) \<or>
                (\<exists>c. z = resubscribed (withContent this c) \<and> \<not> overflows H z))))"
proof (cases "overflows H this")
  case False
  with assms show ?thesis by (simp add: hardClamp_step)
next
  case True
  with assms obtain z where
    z: "hardLoop H 0 (length (originalWords this)) (resubscribed this) = Some z"
    and y: "y = withoutMinHeight (triggerEvent (triggerEvent z HardClampEvent) ClampEvent)"
    by (auto simp: hardClamp_step split: option.splits)
  from hardLoop_shape [OF z]
  have "(originalWords this = [] \<and> z = resubscribed this) \<or>
        (\<exists>c. z = resubscribed (withContent this c) \<and> \<not> overflows H z)"
    by (auto simp: withContent_resubscribed)
  with True y show ?thesis by blast
qed

lemma softClamp_step:
  "softClamp H this =
     (if overflows H (withFontSize this Unset) then
        (case softLoop H (maxFontSize this) (resubscribed (withFontSize this Unset)) of
           (done, this2) \<Rightarrow>
             if \<not> done then hardClamp H (triggerEvent this2 SoftClampEvent)
             else Some (triggerEvent (triggerEvent this2 SoftClampEvent) ClampEvent))
      else Some (resubscribed (withFontSize this Unset)))"
  by (simp add: softClamp_def shouldClamp_pair withFontSize_def resubscribed_def Let_def
      split: prod.splits)


lemma softClamp_shape:
  assumes "softClamp H this = Some y"
  shows "(\<not> overflows H (withFontSize this Unset) \<and> y = resubscribed (withFontSize this Unset)) \<or>
         (overflows H (withFontSize this Unset) \<and>
          (\<exists>j. y = triggerEvent (triggerEvent (resubscribed (withFontSize this (Px j)))
                       SoftClampEvent) ClampEvent \<and> \<not> overflows H y)) \<or>
         (overflows H (withFontSize this Unset) \<and>
          (\<exists>v. hardClamp H (triggerEvent (resubscribed (withFontSize this v)) SoftClampEvent) = Some y
               \<and> overflows H (withFontSize this v)))"
proof (cases "overflows H (withFontSize this Unset)")
  case False
  with assms show ?thesis by (simp add: softClamp_step)
next
  case True
  let ?start = "resubscribed (withFontSize this Unset)"
  obtain fin this2 where loop: "softLoop H (maxFontSize this) ?start = (fin, this2)"
    by (cases "softLoop H (maxFontSize this) ?start")
  have "(\<not> fin \<and> this2 = ?start) \<or>
        (\<exists>j. this2 = resubscribed (withFontSize this (Px j)) \<and> overflows H this2 = (\<not> fin))"
    using softLoop_shape [OF loop]
  proof (elim disjE exE conjE)
    assume "\<not> fin" "this2 = ?start"
    then show ?thesis by blast
  next
    fix j
    assume a: "this2 = resubscribed (withFontSize ?start (Px j))" "overflows H this2 = (\<not> fin)"
    from a(1) have "this2 = resubscribed (withFontSize this (Px j))"
      by (simp add: withFontSize_resubscribed)
    with a(2) show ?thesis by blast
  qed
  then consider (none) "\<not> fin" "this2 = ?start"
    | (some) j where "this2 = resubscribed (withFontSize this (Px j))"
        "overflows H this2 = (\<not> fin)"
    by blast
  then show ?thesis
  proof cases
    case none
    with assms True loop
    have "hardClamp H (triggerEvent ?start SoftClampEvent) = Some y"
      by (simp add: softClamp_step)
    with True show ?thesis by blast
  next
    case some
    show ?thesis
    proof (cases fin)
      case True
      with assms \<open>overflows H (withFontSize this Unset)\<close> loop some
      have "y = triggerEvent (triggerEvent (resubscribed (withFontSize this (Px j)))
                  SoftClampEvent) ClampEvent"
        by (simp add: softClamp_step)
      moreover from some True have "\<not> overflows H y" using calculation by simp
      ultimately show ?thesis using \<open>overflows H (withFontSize this Unset)\<close> by blast
    next
      case False
      with assms \<open>overflows H (withFontSize this Unset)\<close> loop some
      have "hardClamp H (triggerEvent (resubscribed (withFontSize this (Px j))) SoftClampEvent) = Some y"
        by (simp add: softClamp_step)
      moreover from some False have "overflows H (withFontSize this (Px j))" by simp
      ultimately show ?thesis using \<open>overflows H (withFontSize this Unset)\<close> by blast
    qed
  qed
qed

lemma clamp_step:
  "clamp H this =
     (if offsetHeight H (element this) \<noteq> 0 then
        (case (if useSoftClamp this then softClamp H (unwatch this) else hardClamp H (unwatch this)) of
           None \<Rightarrow> None
         | Some this2 \<Rightarrow> Some (if watching this then watchFalse this2 else this2))
      else Some this)"
  by (simp add: clamp_def Let_def unwatch_def split: option.splits)

subsection \<open>split\<close>





subsection \<open>Subscriptions, signals and the fitting case\<close>



lemma overflows_withoutMinHeight:
  "minHeight (element this) = '''' \<Longrightarrow> overflows H (withoutMinHeight this) = overflows H this"
  by (rule overflows_cong) (simp_all add: withoutMinHeight_def)

lemma hardClamp_signals:
  assumes "hardClamp H this = Some y"
  shows "dispatched y = dispatched this @ (if overflows H this then [HardClampEvent, ClampEvent] else [])
         \<and> (overflows H this \<and> originalWords this \<noteq> [] \<and> minHeight (element this) = ''''
              \<longrightarrow> \<not> overflows H y)"
  using hardClamp_shape [OF assms]
proof (elim disjE conjE exE)
  assume "\<not> overflows H this" "y = withoutMinHeight (resubscribed this)"
  then show ?thesis by (simp add: instance_defs)
next
  fix z
  assume "overflows H this"
    "y = withoutMinHeight (triggerEvent (triggerEvent z HardClampEvent) ClampEvent)"
    "originalWords this = []" "z = resubscribed this"
  then show ?thesis by (simp add: instance_defs)
next
  fix z c
  assume ov: "overflows H this"
    and y: "y = withoutMinHeight (triggerEvent (triggerEvent z HardClampEvent) ClampEvent)"
    and z: "z = resubscribed (withContent this c)" and fit: "\<not> overflows H z"
  have d: "dispatched y = dispatched this @ [HardClampEvent, ClampEvent]"
    using y z by (simp add: instance_defs)
  have "\<not> overflows H y" if "minHeight (element this) = ''''"
  proof -
    from that z have "minHeight (element (triggerEvent (triggerEvent z HardClampEvent) ClampEvent)) = ''''"
      by (simp add: instance_defs)
    from overflows_withoutMinHeight [OF this, of H] y fit show ?thesis by simp
  qed
  with d ov show ?thesis by simp
qed


lemma prefixText_resubscribed: "prefixText (resubscribed this) i = prefixText this i"
  by (simp add: prefixText_def resubscribed_def)

lemma take_butlast_le:
  assumes "n \<le> length t - 1"
  shows "take n (butlast t) = take n t"
proof (cases "t = []")
  case True
  then show ?thesis by simp
next
  case False
  with assms have "n < length t" by (cases t) auto
  then show ?thesis by (rule take_butlast)
qed

subsection \<open>When the class returns\<close>

text \<open>
  The inner loop of hard clamp stops, and with it every method, as soon as the ellipsis
  alone fits.
\<close>

lemma trimLoop_returns:
  assumes "\<not> overflows H (withContent this (Html ''&hellip;''))"
  shows "trimLoop H t this \<noteq> None"
  using assms
proof (induction "length t" arbitrary: t this)
  case 0
  then show ?case by (subst trimLoop_step) simp
next
  case (Suc m)
  let ?next = "resubscribed (withContent this (Html (butlast t @ ''&hellip;'')))"
  have m: "m = length (butlast t)" using Suc.hyps(2) by simp
  have "\<not> overflows H (withContent ?next (Html ''&hellip;''))"
    using Suc.prems by simp
  from Suc.hyps(1) [OF m this] show ?case
    by (subst trimLoop_step) simp
qed

lemma hardLoop_returns:
  assumes "\<not> overflows H (withContent this (Html ''&hellip;''))"
  shows "hardLoop H i len this \<noteq> None"
  using assms
proof (induction "len - i" arbitrary: i this)
  case 0
  then show ?case by (subst hardLoop_step) simp
next
  case (Suc n)
  let ?next = "resubscribed (withContent this (Text (prefixText this i)))"
  have n: "n = len - Suc i" using Suc.hyps(2) by simp
  have fits: "\<not> overflows H (withContent ?next (Html ''&hellip;''))"
    using Suc.prems by simp
  from Suc.hyps(1) [OF n fits] trimLoop_returns [OF fits, of "prefixText this i"]
  show ?case by (subst hardLoop_step) simp
qed

lemma hardClamp_returns:
  assumes "\<not> overflows H (withContent this (Html ''&hellip;''))"
  shows "hardClamp H this \<noteq> None"
proof -
  have "\<not> overflows H (withContent (resubscribed this) (Html ''&hellip;''))"
    using assms by simp
  from hardLoop_returns [OF this, of 0 "length (originalWords this)"]
  show ?thesis by (auto simp: hardClamp_step split: option.splits)
qed

lemma softClamp_returns:
  assumes "\<forall>v. \<not> overflows H (withContent (withFontSize this v) (Html ''&hellip;''))"
  shows "softClamp H this \<noteq> None"
proof -
  have hard: "hardClamp H (triggerEvent (resubscribed (withFontSize this v)) SoftClampEvent) \<noteq> None" for v
  proof (rule hardClamp_returns)
    have "overflows H (withContent (triggerEvent (resubscribed (withFontSize this v)) SoftClampEvent)
                         (Html ''&hellip;''))
          = overflows H (withContent (withFontSize this v) (Html ''&hellip;''))"
      by (rule overflows_cong) (simp_all add: instance_defs)
    with assms
    show "\<not> overflows H (withContent (triggerEvent (resubscribed (withFontSize this v)) SoftClampEvent)
                           (Html ''&hellip;''))"
      by simp
  qed
  let ?start = "resubscribed (withFontSize this Unset)"
  obtain fin this2 where loop: "softLoop H (maxFontSize this) ?start = (fin, this2)"
    by (cases "softLoop H (maxFontSize this) ?start")
  from softLoop_shape [OF loop]
  have "this2 = ?start \<or> (\<exists>j. this2 = resubscribed (withFontSize this (Px j)))"
    by (auto simp: withFontSize_resubscribed)
  with hard loop show ?thesis
    by (auto simp: softClamp_step)
qed

lemma clamp_returns:
  assumes "\<forall>v. \<not> overflows H (withContent (withFontSize this v) (Html ''&hellip;''))"
  shows "clamp H this \<noteq> None"
proof -
  have w: "overflows H (withContent (withFontSize (unwatch this) v) (Html ''&hellip;''))
        = overflows H (withContent (withFontSize this v) (Html ''&hellip;''))" for v
    by (rule overflows_cong) (simp_all add: instance_defs)
  with assms have "softClamp H (unwatch this) \<noteq> None"
    by (intro softClamp_returns) simp
  moreover have "hardClamp H (unwatch this) \<noteq> None"
  proof (rule hardClamp_returns)
    have "withFontSize (unwatch this) (fontSize (element this)) = unwatch this"
      by (simp add: instance_defs)
    with w [of "fontSize (element this)"] assms
    show "\<not> overflows H (withContent (unwatch this) (Html ''&hellip;''))"
      by (metis overflows_cong)
  qed
  ultimately show ?thesis
    by (auto simp: clamp_step split: option.splits)
qed

subsection \<open>The demonstration instance\<close>

lemma constructor_titleClamp: "constructor demoHost heading noOptions = titleClamp"
  by code_simp

section \<open>The claims\<close>

text \<open>
  C1. The claim: during every measurement pass \<^verbatim>\<open>_whileMeasuring\<close> appends zeroing
  overrides for the minimum height, the top and bottom border widths and the top and
  bottom paddings to the inline style before the callback runs. In the source the text
  appended is the array of property names, converted to a string: the style text that the
  callback sees ends in the five names separated by commas, and it is not the text with
  the overrides \<open>newStyles\<close>, which the source computes and never uses.
\<close>

theorem whileMeasuring_appends_names:
  "fst (whileMeasuring (\<lambda>el. (cssText el, el)) this) =
     cssText (element this) @
       '';min-height,border-top-width,border-bottom-width,padding-top-width,padding-bottom-width''
   \<and> fst (whileMeasuring (\<lambda>el. (cssText el, el)) this) \<noteq> cssText (element this) @ '';'' @ newStyles"
  by (simp add: whileMeasuring_def unwatch_def Let_def toString_def stylesToZeroOut_def newStyles_def)

text \<open>
  C2. The claim: the character-level loop of hard clamp stops once the trimmed text is
  used up, even when the empty text with the ellipsis still overflows. The source has no
  such exit: when every shortened text that the loop renders overflows with its ellipsis
  (the texts \<open>take n t\<close> for \<open>n < length t\<close>, and the empty text), the loop started on \<open>t\<close>
  never returns. For an exhausted text, \<open>t = []\<close>, the hypothesis is that the ellipsis
  alone overflows.
\<close>

theorem trimLoop_never_returns:
  assumes "\<forall>n \<le> length t - 1. overflows H (withContent this (Html (take n t @ ''&hellip;'')))"
  shows "trimLoop H t this = None"
  using assms
proof (induction "length t" arbitrary: t this)
  case 0
  then have "t = []" by simp
  with "0.prems" show ?case by (simp add: trimLoop_exhausted)
next
  case (Suc m)
  let ?next = "resubscribed (withContent this (Html (butlast t @ ''&hellip;'')))"
  have ov: "overflows H (withContent this (Html (butlast t @ ''&hellip;'')))"
    using Suc.prems [rule_format, of "length t - 1"] by (simp add: butlast_conv_take)
  have m: "m = length (butlast t)" using Suc.hyps(2) by simp
  have "trimLoop H (butlast t) ?next = None"
  proof (rule Suc.hyps(1) [OF m], intro allI impI)
    fix n
    assume n: "n \<le> length (butlast t) - 1"
    then have "n \<le> length t - 1" by simp
    with Suc.prems have "overflows H (withContent this (Html (take n t @ ''&hellip;'')))" by blast
    moreover from n have "take n (butlast t) = take n t"
      by (intro take_butlast_le) simp
    ultimately show "overflows H (withContent ?next (Html (take n (butlast t) @ ''&hellip;'')))"
      by simp
  qed
  with ov show ?case by (subst trimLoop_step) simp
qed

text \<open>
  On the demonstration surface, measured against a basis line height of 10 pixels while
  the lines are 20 pixels high, the ellipsis alone overflows; \<^verbatim>\<open>hardClamp()\<close> reaches the
  inner loop at the prefix \<^verbatim>\<open>Travis\<close> and never returns.
\<close>

theorem trimLoop_never_returns_witness:
  "list_all (\<lambda>n. overflows demoHost (withContent basisClamp (Html (take n ''Travis'' @ ''&hellip;''))))
     [0..<6] \<and>
   overflows demoHost (withContent basisClamp (Html ''&hellip;'')) \<and>
   trimLoop demoHost [] basisClamp = None \<and>
   overflows demoHost basisClamp \<and>
   \<not> overflows demoHost (withContent basisClamp (Text (prefixText basisClamp 0))) \<and>
   prefixText basisClamp 1 = ''Travis'' \<and>
   overflows demoHost (withContent basisClamp (Text ''Travis'')) \<and>
   hardClamp demoHost basisClamp = None"
proof -
  have h: "list_all (\<lambda>n. overflows demoHost
             (withContent basisClamp (Html (take n ''Travis'' @ ''&hellip;'')))) [0..<6]"
    by code_simp
  have all: "\<forall>n \<le> length ''Travis'' - 1.
      overflows demoHost (withContent basisClamp (Html (take n ''Travis'' @ ''&hellip;'')))"
  proof (intro allI impI)
    fix n :: nat
    assume "n \<le> length ''Travis'' - 1"
    then have "n \<in> set [0..<6]" by (simp only: set_upt atLeastLessThan_iff) simp
    with h show "overflows demoHost (withContent basisClamp (Html (take n ''Travis'' @ ''&hellip;'')))"
      unfolding list_all_iff by blast
  qed
  have e: "overflows demoHost (withContent basisClamp (Html ''&hellip;''))" by code_simp
  then have e': "\<forall>n \<le> length ([]::string) - 1.
      overflows demoHost (withContent basisClamp (Html (take n [] @ ''&hellip;'')))" by simp
  have g: "overflows demoHost basisClamp" by code_simp
  have p0: "\<not> overflows demoHost (withContent basisClamp (Text (prefixText basisClamp 0)))"
    by code_simp
  have p1: "prefixText basisClamp 1 = ''Travis''" by code_simp
  have o1: "overflows demoHost (withContent basisClamp (Text ''Travis''))" by code_simp
  have len: "length (originalWords basisClamp) = 3" by code_simp
  let ?at = "resubscribed (withContent basisClamp (Text ''Travis''))"
  have "\<forall>n \<le> length ''Travis'' - 1.
      overflows demoHost (withContent ?at (Html (take n ''Travis'' @ ''&hellip;'')))"
    using all by simp
  then have inner: "trimLoop demoHost ''Travis'' ?at = None"
    by (rule trimLoop_never_returns)
  have "hardLoop demoHost 1 3 (resubscribed (withContent basisClamp (Text (prefixText basisClamp 0))))
          = None"
    by (subst hardLoop_step) (use o1 p1 inner in \<open>simp add: withContent_resubscribed\<close>)
  then have "hardLoop demoHost 0 3 (resubscribed basisClamp) = None"
    by (subst hardLoop_step) (use p0 in \<open>simp add: withContent_resubscribed prefixText_resubscribed\<close>)
  with g len have hc: "hardClamp demoHost basisClamp = None"
    by (simp add: hardClamp_step)
  from trimLoop_never_returns [OF e'] h e g p0 p1 o1 hc show ?thesis by simp
qed

text \<open>
  C3. The claim: when the guard of \<^verbatim>\<open>hardClamp()\<close> finds overflow and no prefix tested by
  the word-level loop overflows, the inner loop does not run and the surface is left with
  all the original words. The loop of the source stops before the full sequence: its last
  round assigns all the words but the last one, and that text is what remains, without
  an ellipsis, after the two signals.
\<close>

theorem hardClamp_drops_last_word:
  assumes "overflows H this" and "originalWords this \<noteq> []"
    and "\<forall>j < length (originalWords this).
           \<not> overflows H (withContent this (Text (prefixText this j)))"
  shows "hardClamp H this =
           Some (withoutMinHeight (triggerEvent (triggerEvent
                   (resubscribed (withContent this (Text (join '' '' (butlast (originalWords this))))))
                   HardClampEvent) ClampEvent))"
proof -
  let ?len = "length (originalWords this)"
  have len: "0 < ?len" using assms(2) by simp
  have fit: "\<forall>j. 0 \<le> j \<and> j < ?len \<longrightarrow>
      \<not> overflows H (withContent (resubscribed this) (Text (prefixText (resubscribed this) j)))"
    using assms(3) by (simp add: prefixText_resubscribed)
  have "hardLoop H 0 ?len (resubscribed this) =
          Some (resubscribed (withContent (resubscribed this)
                  (Text (prefixText (resubscribed this) (?len - 1)))))"
    by (rule hardLoop_all_fit [OF len fit])
  moreover have "prefixText (resubscribed this) (?len - 1) = join '' '' (butlast (originalWords this))"
    unfolding prefixText_resubscribed by (simp add: prefixText_def butlast_conv_take)
  ultimately show ?thesis
    using assms(1) by (simp add: hardClamp_step withContent_resubscribed)
qed

text \<open>
  On the demonstration surface the heading \<^verbatim>\<open>Travis Van Couvering\<close> overflows, its three
  tested prefixes fit, and \<^verbatim>\<open>hardClamp()\<close> leaves \<^verbatim>\<open>Travis Van\<close>.
\<close>

theorem hardClamp_drops_last_word_witness:
  "overflows demoHost hardOnlyClamp \<and> originalWords hardOnlyClamp \<noteq> [] \<and>
   list_all (\<lambda>j. \<not> overflows demoHost (withContent hardOnlyClamp (Text (prefixText hardOnlyClamp j))))
     [0..<length (originalWords hardOnlyClamp)] \<and>
   join '' '' (originalWords hardOnlyClamp) = ''Travis Van Couvering'' \<and>
   hardClamp demoHost hardOnlyClamp =
     Some (withoutMinHeight (triggerEvent (triggerEvent
             (resubscribed (withContent hardOnlyClamp (Text ''Travis Van'')))
             HardClampEvent) ClampEvent)) \<and>
   map_option (content \<circ> element) (hardClamp demoHost hardOnlyClamp) = Some (Text ''Travis Van'')"
proof -
  have h1: "overflows demoHost hardOnlyClamp" by code_simp
  have h2: "originalWords hardOnlyClamp \<noteq> []" by code_simp
  have h3: "list_all (\<lambda>j. \<not> overflows demoHost
              (withContent hardOnlyClamp (Text (prefixText hardOnlyClamp j))))
              [0..<length (originalWords hardOnlyClamp)]" by code_simp
  then have h3': "\<forall>j < length (originalWords hardOnlyClamp).
           \<not> overflows demoHost (withContent hardOnlyClamp (Text (prefixText hardOnlyClamp j)))"
    by (auto simp: list_all_iff)
  have t: "join '' '' (originalWords hardOnlyClamp) = ''Travis Van Couvering''" by code_simp
  have b: "join '' '' (butlast (originalWords hardOnlyClamp)) = ''Travis Van''" by code_simp
  have c: "map_option (content \<circ> element) (hardClamp demoHost hardOnlyClamp)
             = Some (Text ''Travis Van'')" by code_simp
  from hardClamp_drops_last_word [OF h1 h2 h3'] b h1 h2 h3 t c show ?thesis by simp
qed

text \<open>
  C4, as amended. A call of \<^verbatim>\<open>clamp()\<close> that returns dispatches one of four sequences of
  signals: none; soft clamp, then clamp; soft clamp, hard clamp, then clamp (soft clamp
  found no size and handed over to hard clamp: both signals fire); hard clamp, then clamp.
  The sequence with the soft-clamp signal needs \<^verbatim>\<open>useSoftClamp\<close>, the sequence of hard
  clamp alone needs it false. No signal fires exactly when the surface has no height or
  the first overflow test finds the content fitting. So the clamp signal fires at most
  once, and exactly once whenever any signal fires; and when signals fired, the recorded
  words are not empty and the element had no inline minimum height, the content fits at
  the end of the call.
\<close>

theorem clamp_signals:
  assumes "clamp H this = Some this'"
  shows "\<exists>ev. dispatched this' = dispatched this @ ev \<and>
           (ev = [] \<or> ev = [SoftClampEvent, ClampEvent] \<or>
            ev = [SoftClampEvent, HardClampEvent, ClampEvent] \<or> ev = [HardClampEvent, ClampEvent]) \<and>
           (ev = [HardClampEvent, ClampEvent] \<longrightarrow> \<not> useSoftClamp this) \<and>
           (SoftClampEvent \<in> set ev \<longrightarrow> useSoftClamp this) \<and>
           (ev = [] \<longleftrightarrow> offsetHeight H (element this) = 0 \<or>
               \<not> overflows H (if useSoftClamp this then withFontSize this Unset else this)) \<and>
           (ev \<noteq> [] \<and> originalWords this \<noteq> [] \<and> minHeight (element this) = ''''
              \<longrightarrow> \<not> overflows H this')"
proof (cases "offsetHeight H (element this) = 0")
  case True
  with assms have "this' = this" by (simp add: clamp_step)
  with True show ?thesis by (intro exI [of _ "[]"]) simp
next
  case nz: False
  with assms obtain y where
    y: "(if useSoftClamp this then softClamp H (unwatch this) else hardClamp H (unwatch this)) = Some y"
    and r: "this' = (if watching this then watchFalse y else y)"
    by (auto simp: clamp_step split: option.splits)
  from r have d: "dispatched this' = dispatched y"
    by (simp add: watchFalse_def)
  from r have o: "overflows H this' = overflows H y"
    by simp
  have u: "dispatched (unwatch this) = dispatched this" "originalWords (unwatch this) = originalWords this"
    "minHeight (element (unwatch this)) = minHeight (element this)"
    by (simp_all add: unwatch_def)
  show ?thesis
  proof (cases "useSoftClamp this")
    case False
    with y have h: "hardClamp H (unwatch this) = Some y" by simp
    from hardClamp_signals [OF h] False nz d o u show ?thesis
      by (intro exI [of _ "if overflows H this then [HardClampEvent, ClampEvent] else []"]) simp
  next
    case True
    with y have s: "softClamp H (unwatch this) = Some y" by simp
    have w: "overflows H (withFontSize (unwatch this) v) = overflows H (withFontSize this v)" for v
      by (rule overflows_cong) (simp_all add: instance_defs)
    from softClamp_shape [OF s] show ?thesis
    proof (elim disjE conjE exE)
      assume "\<not> overflows H (withFontSize (unwatch this) Unset)"
        "y = resubscribed (withFontSize (unwatch this) Unset)"
      with True nz d w show ?thesis
        by (intro exI [of _ "[]"]) (simp add: instance_defs)
    next
      fix j
      assume "overflows H (withFontSize (unwatch this) Unset)"
        "y = triggerEvent (triggerEvent (resubscribed (withFontSize (unwatch this) (Px j)))
               SoftClampEvent) ClampEvent"
        "\<not> overflows H y"
      with True nz d o w show ?thesis
        by (intro exI [of _ "[SoftClampEvent, ClampEvent]"]) (simp add: instance_defs)
    next
      fix v
      let ?mid = "triggerEvent (resubscribed (withFontSize (unwatch this) v)) SoftClampEvent"
      assume ov0: "overflows H (withFontSize (unwatch this) Unset)"
        and h: "hardClamp H ?mid = Some y"
        and ov: "overflows H (withFontSize (unwatch this) v)"
      from ov have "overflows H ?mid" by simp
      with hardClamp_signals [OF h]
      have "dispatched y = dispatched this @ [SoftClampEvent, HardClampEvent, ClampEvent]"
        and "originalWords this \<noteq> [] \<and> minHeight (element this) = '''' \<longrightarrow> \<not> overflows H y"
        by (simp_all add: instance_defs)
      with True nz d o w ov0 show ?thesis
        by (intro exI [of _ "[SoftClampEvent, HardClampEvent, ClampEvent]"]) simp
    qed
  qed
qed

theorem clamp_signals_witness:
  "clamp demoHost narrowRangeClamp = Some (the (clamp demoHost narrowRangeClamp)) \<and>
   dispatched narrowRangeClamp = [] \<and>
   dispatched (the (clamp demoHost narrowRangeClamp)) = [SoftClampEvent, HardClampEvent, ClampEvent] \<and>
   originalWords narrowRangeClamp \<noteq> [] \<and> minHeight (element narrowRangeClamp) = '''' \<and>
   \<not> overflows demoHost (the (clamp demoHost narrowRangeClamp))"
proof -
  have r: "clamp demoHost narrowRangeClamp = Some (the (clamp demoHost narrowRangeClamp))"
    by code_simp
  have d0: "dispatched narrowRangeClamp = []" by code_simp
  have d: "dispatched (the (clamp demoHost narrowRangeClamp))
             = [SoftClampEvent, HardClampEvent, ClampEvent]" by code_simp
  have h: "originalWords narrowRangeClamp \<noteq> []" "minHeight (element narrowRangeClamp) = ''''"
    by code_simp+
  from clamp_signals [OF r] d0 d h
  have "\<not> overflows demoHost (the (clamp demoHost narrowRangeClamp))" by auto
  with r d0 d h show ?thesis by simp
qed

text \<open>
  The claim as stated, that exactly one of the soft-clamp and hard-clamp signals fires in
  a pass that changed the rendering, fails on the demonstration surface: with font sizes
  from 20 down to 15 pixels the heading \<^verbatim>\<open>Travis VanCouvering Jr\<close> never fits, and the
  pass dispatches both signals, changes the element and ends fitting.
\<close>

theorem clamp_signals_counterexample:
  "map_option dispatched (clamp demoHost narrowRangeClamp)
     = Some [SoftClampEvent, HardClampEvent, ClampEvent] \<and>
   dispatched narrowRangeClamp = [] \<and>
   count_list (dispatched (the (clamp demoHost narrowRangeClamp))) SoftClampEvent = 1 \<and>
   count_list (dispatched (the (clamp demoHost narrowRangeClamp))) HardClampEvent = 1 \<and>
   map_option element (clamp demoHost narrowRangeClamp) \<noteq> Some (element narrowRangeClamp) \<and>
   \<not> overflows demoHost (the (clamp demoHost narrowRangeClamp))"
  by code_simp











text \<open>
  C9. When \<^verbatim>\<open>minFontSize\<close> is greater than \<^verbatim>\<open>maxFontSize\<close> and the content overflows after
  the reset of the font size, the loop of soft clamp runs no round and assigns no size,
  and \<^verbatim>\<open>softClamp()\<close> is \<^verbatim>\<open>hardClamp()\<close> on the instance after the soft-clamp signal.
\<close>

theorem softClamp_empty_range:
  assumes "maxFontSize this < minFontSize this"
    and "overflows H (withFontSize this Unset)"
  shows "softLoop H (maxFontSize this) (resubscribed (withFontSize this Unset))
           = (False, resubscribed (withFontSize this Unset)) \<and>
         softClamp H this
           = hardClamp H (triggerEvent (resubscribed (withFontSize this Unset)) SoftClampEvent)"
proof -
  have loop: "softLoop H (maxFontSize this) (resubscribed (withFontSize this Unset))
           = (False, resubscribed (withFontSize this Unset))"
    using assms(1) by (subst softLoop_step) simp
  with assms(2) show ?thesis by (simp add: softClamp_step)
qed

theorem softClamp_empty_range_witness:
  "maxFontSize emptyRangeClamp < minFontSize emptyRangeClamp \<and>
   overflows demoHost (withFontSize emptyRangeClamp Unset) \<and>
   softLoop demoHost (maxFontSize emptyRangeClamp) (resubscribed (withFontSize emptyRangeClamp Unset))
     = (False, resubscribed (withFontSize emptyRangeClamp Unset)) \<and>
   softClamp demoHost emptyRangeClamp
     = hardClamp demoHost
         (triggerEvent (resubscribed (withFontSize emptyRangeClamp Unset)) SoftClampEvent) \<and>
   map_option dispatched (softClamp demoHost emptyRangeClamp)
     = Some [SoftClampEvent, HardClampEvent, ClampEvent] \<and>
   map_option (fontSize \<circ> element) (softClamp demoHost emptyRangeClamp) = Some Unset"
proof -
  have h1: "maxFontSize emptyRangeClamp < minFontSize emptyRangeClamp" by code_simp
  have h2: "overflows demoHost (withFontSize emptyRangeClamp Unset)" by code_simp
  have r1: "map_option dispatched (softClamp demoHost emptyRangeClamp)
     = Some [SoftClampEvent, HardClampEvent, ClampEvent]" by code_simp
  have r2: "map_option (fontSize \<circ> element) (softClamp demoHost emptyRangeClamp) = Some Unset"
    by code_simp
  from softClamp_empty_range [OF h1 h2] h1 h2 r1 r2 show ?thesis by simp
qed



end
